theory Spec2Isabelle
  imports Main "HOL-Library.AList" "HOL-Library.Sublist"
begin

section \<open>Python values, errors and dictionaries\<close>

text \<open>
  The module \<^verbatim>\<open>biokit/taxonomy/taxonomy.py\<close> is written for both Python 2 and Python 3
  (its \<^verbatim>\<open>on_web\<close> says so and tries the Python 3 imports first). The two interpreters
  differ in one place that the loader reaches: the attribute \<^verbatim>\<open>message\<close> of an exception
  exists in Python 2 only. The interpreter is therefore a field of the modelled state.

  Text is modelled as ASCII: \<^verbatim>\<open>\s\<close> and \<^verbatim>\<open>strip()\<close> see the six ASCII white-space
  characters, \<^verbatim>\<open>\d\<close> the ten ASCII digits.
\<close>

datatype python = Py2 | Py3

datatype pyval = PInt int | PStr string

datatype error =
    KeyError pyval
  | ValueError string
  | AttributeError string
  | NameError string
  | RecursionError

text \<open>
  A \<^verbatim>\<open>dict\<close> is an association list in insertion order; \<^verbatim>\<open>d[k] = v\<close> is
  \<^const>\<open>AList.update\<close>, which overwrites in place and appends a new key at the end.
  \<^verbatim>\<open>d[k]\<close> raises \<^verbatim>\<open>KeyError(k)\<close> on a missing key.
\<close>

type_synonym ('k, 'v) dict = "('k \<times> 'v) list"

definition dict_get :: "('k \<Rightarrow> pyval) \<Rightarrow> ('k, 'v) dict \<Rightarrow> 'k \<Rightarrow> error + 'v" where
  "dict_get key d k = (case map_of d k of None \<Rightarrow> Inl (KeyError (key k)) | Some v \<Rightarrow> Inr v)"

definition dict_set :: "('k, 'v) dict \<Rightarrow> 'k \<Rightarrow> 'v \<Rightarrow> ('k, 'v) dict" where
  "dict_set d k v = AList.update k v d"

definition dict_keys :: "('k, 'v) dict \<Rightarrow> 'k list" where
  "dict_keys d = map fst d"

section \<open>Text: white space, digits, \<^verbatim>\<open>strip\<close>, \<^verbatim>\<open>split\<close>, \<^verbatim>\<open>int\<close>, \<^verbatim>\<open>str\<close>\<close>

definition is_space :: "char \<Rightarrow> bool" where
  "is_space c = (c \<in> set [CHR '' '', CHR 0x09, CHR 0x0A, CHR 0x0B, CHR 0x0C, CHR 0x0D])"

definition is_digit :: "char \<Rightarrow> bool" where
  "is_digit c = (c \<in> set ''0123456789'')"

definition py_strip :: "string \<Rightarrow> string" where
  "py_strip s = rev (dropWhile is_space (rev (dropWhile is_space s)))"

text \<open>\<^verbatim>\<open>s.split(sep)\<close> for a non-empty separator: cut at every occurrence, leftmost first.\<close>

function split_from :: "string \<Rightarrow> string \<Rightarrow> string \<Rightarrow> string list" where
  "split_from sep cur [] = [rev cur]"
| "split_from sep cur (c # cs) =
     (if sep \<noteq> [] \<and> prefix sep (c # cs)
      then rev cur # split_from sep [] (drop (length sep) (c # cs))
      else split_from sep (c # cur) cs)"
  by pat_completeness auto
termination
  by (relation "measure (\<lambda>(sep, cur, s). length s)") auto

definition py_split :: "string \<Rightarrow> string \<Rightarrow> string list" where
  "py_split s sep = split_from sep [] s"

definition digit_val :: "char \<Rightarrow> int" where
  "digit_val c = int (of_char c) - 48"

definition digits_val :: "string \<Rightarrow> int" where
  "digits_val ds = foldl (\<lambda>n c. 10 * n + digit_val c) 0 ds"

text \<open>
  \<^verbatim>\<open>int(s)\<close> on text: white space around the number is dropped, one sign is allowed,
  then decimal digits; Python 3 also allows single underscores between digits.
  Anything else raises \<^verbatim>\<open>ValueError\<close>.
\<close>

fun digit_groups :: "string \<Rightarrow> bool" where
  "digit_groups [] = False"
| "digit_groups [c] = is_digit c"
| "digit_groups (c # d # cs) =
     (is_digit c \<and> (if d = CHR ''_'' then digit_groups cs else digit_groups (d # cs)))"

definition int_body :: "python \<Rightarrow> string \<Rightarrow> int option" where
  "int_body v s =
     (if s \<noteq> [] \<and> list_all is_digit s then Some (digits_val s)
      else if v = Py3 \<and> digit_groups s then Some (digits_val (filter is_digit s))
      else None)"

definition int_of_str :: "python \<Rightarrow> string \<Rightarrow> error + int" where
  "int_of_str v s =
     (let t = py_strip s;
          r = (case t of
                 [] \<Rightarrow> None
               | c # cs \<Rightarrow>
                   if c = CHR ''-'' then map_option uminus (int_body v cs)
                   else if c = CHR ''+'' then int_body v cs
                   else int_body v t)
      in case r of None \<Rightarrow> Inl (ValueError s) | Some n \<Rightarrow> Inr n)"

fun py_int :: "python \<Rightarrow> pyval \<Rightarrow> error + int" where
  "py_int v (PInt n) = Inr n"
| "py_int v (PStr s) = int_of_str v s"

definition digit_char :: "nat \<Rightarrow> char" where
  "digit_char d = ''0123456789'' ! d"

fun nat_digits :: "nat \<Rightarrow> string" where
  "nat_digits n =
     (if n < 10 then [digit_char n] else nat_digits (n div 10) @ [digit_char (n mod 10)])"

declare nat_digits.simps [simp del]

fun py_str :: "pyval \<Rightarrow> string" where
  "py_str (PStr s) = s"
| "py_str (PInt n) = (if n < 0 then CHR ''-'' # nat_digits (nat (- n)) else nat_digits (nat n))"

section \<open>The four patterns and \<^verbatim>\<open>re.search\<close>\<close>

text \<open>
  The patterns of \<^verbatim>\<open>load_records\<close> are sequences of literals and greedy repetitions of one
  character class, one of them captured. \<^verbatim>\<open>rx_match\<close> is the backtracking matcher on that
  fragment: a repetition first takes as many characters as it can and gives them back one
  at a time while the rest of the pattern fails. \<^verbatim>\<open>rx_search\<close> tries every start position
  from the left and returns \<^verbatim>\<open>group(1)\<close> of the first match.
\<close>

datatype cls = Space | Digit | NotNewline

fun in_cls :: "cls \<Rightarrow> char \<Rightarrow> bool" where
  "in_cls Space c = is_space c"
| "in_cls Digit c = is_digit c"
| "in_cls NotNewline c = (c \<noteq> CHR 0x0A)"

datatype item = Lit string | Rep cls nat | Grp cls nat

fun first_some :: "'a option list \<Rightarrow> 'a option" where
  "first_some [] = None"
| "first_some (None # xs) = first_some xs"
| "first_some (Some x # xs) = Some x"

fun rx_match :: "item list \<Rightarrow> string \<Rightarrow> string \<Rightarrow> string option" where
  "rx_match [] s g = Some g"
| "rx_match (Lit l # r) s g =
     (if prefix l s then rx_match r (drop (length l) s) g else None)"
| "rx_match (Rep c m # r) s g =
     first_some (map (\<lambda>k. rx_match r (drop k s) g)
                     (rev [m ..< Suc (length (takeWhile (in_cls c) s))]))"
| "rx_match (Grp c m # r) s g =
     first_some (map (\<lambda>k. rx_match r (drop k s) (take k s))
                     (rev [m ..< Suc (length (takeWhile (in_cls c) s))]))"

fun rx_search :: "item list \<Rightarrow> string \<Rightarrow> string option" where
  "rx_search p s =
     (case rx_match p s [] of
        Some g \<Rightarrow> Some g
      | None \<Rightarrow> (case s of [] \<Rightarrow> None | c # cs \<Rightarrow> rx_search p cs))"

declare rx_search.simps [simp del]

definition field_pattern :: "string \<Rightarrow> cls \<Rightarrow> item list" where
  "field_pattern label c = [Lit label, Rep Space 1, Lit '':'', Rep Space 0, Grp c 1, Rep Space 0]"

definition child_match :: "item list" where
  "child_match = field_pattern ''ID'' Digit"

definition parent_match :: "item list" where
  "parent_match = field_pattern ''PARENT ID'' Digit"

definition rank_match :: "item list" where
  "rank_match = field_pattern ''RANK'' NotNewline"

definition name_match :: "item list" where
  "name_match = field_pattern ''SCIENTIFIC NAME'' NotNewline"

section \<open>The taxonomy object and what it prints\<close>

text \<open>
  A parsed block is the \<^verbatim>\<open>dict\<close> built by \<^verbatim>\<open>_interpret_record\<close>, with the keys
  \<^verbatim>\<open>raw\<close>, \<^verbatim>\<open>id\<close>, \<^verbatim>\<open>parent\<close>, \<^verbatim>\<open>scientific_name\<close> and \<^verbatim>\<open>rank\<close>, all values text.
  The state holds the attributes of the \<^verbatim>\<open>Taxonomy\<close> object that the operations read or
  write, the text of the flat file at \<^verbatim>\<open>self.filename\<close> (which \<^verbatim>\<open>_load_flat_file\<close>
  has fetched, outside this model), the list object that is the default value of the
  parameter \<^verbatim>\<open>lineage_rank\<close>, the lines printed so far, and the interpreter.
  The progress bar of \<^verbatim>\<open>easydev\<close> is not modelled.
\<close>

type_synonym dico = "(string, string) dict"

type_synonym store = "(int, dico) dict"

record taxonomy =
  interp :: python
  flat_file :: string
  verbose :: bool
  records :: store
  default_lineage_rank :: "(string \<times> string) list"
  printed :: "string list"

definition print :: "string \<Rightarrow> taxonomy \<Rightarrow> taxonomy" where
  "print line st = st\<lparr>printed := printed st @ [line]\<rparr>"

definition field :: "dico \<Rightarrow> string \<Rightarrow> error + string" where
  "field d k = dict_get PStr d k"

section \<open>\<^verbatim>\<open>_interpret_record\<close> and \<^verbatim>\<open>load_records\<close>\<close>

definition set_if_match :: "item list \<Rightarrow> string \<Rightarrow> string \<Rightarrow> dico \<Rightarrow> dico" where
  "set_if_match p record k data =
     (case rx_search p record of None \<Rightarrow> data | Some g \<Rightarrow> dict_set data k g)"

definition interpret_record :: "string \<Rightarrow> dico" where
  "interpret_record record =
     set_if_match rank_match record ''rank''
       (set_if_match name_match record ''scientific_name''
         (set_if_match parent_match record ''parent''
           (set_if_match child_match record ''id'' [(''raw'', record)])))"

text \<open>
  The body of the \<^verbatim>\<open>try\<close>: interpret the block, read \<^verbatim>\<open>dico['id']\<close>, convert it, store the
  record under the number.
\<close>

definition try_block :: "taxonomy \<Rightarrow> string \<Rightarrow> error + taxonomy" where
  "try_block st record =
     (let dico = interpret_record record in
      case field dico ''id'' of
        Inl e \<Rightarrow> Inl e
      | Inr i \<Rightarrow>
          (case int_of_str (interp st) i of
             Inl e \<Rightarrow> Inl e
           | Inr identifier \<Rightarrow> Inr (st\<lparr>records := dict_set (records st) identifier dico\<rparr>)))"

text \<open>
  \<^verbatim>\<open>err.message\<close>: in Python 2 the single argument of the exception; in Python 3 the
  attribute does not exist and reading it raises \<^verbatim>\<open>AttributeError\<close>.
\<close>

fun err_args :: "error \<Rightarrow> string" where
  "err_args (KeyError k) = py_str k"
| "err_args (ValueError s) = ''invalid literal for int() with base 10: '' @ s"
| "err_args (AttributeError a) = a"
| "err_args (NameError n) = n"
| "err_args RecursionError = ''maximum recursion depth exceeded''"

fun err_message :: "python \<Rightarrow> error \<Rightarrow> error + string" where
  "err_message Py2 e = Inr (err_args e)"
| "err_message Py3 e = Inl (AttributeError ''message'')"

text \<open>The \<^verbatim>\<open>except\<close> clause: three prints, the first of \<^verbatim>\<open>err.message\<close>.\<close>

definition handler :: "taxonomy \<Rightarrow> error \<Rightarrow> string \<Rightarrow> error + taxonomy" where
  "handler st err record =
     (case err_message (interp st) err of
        Inl e \<Rightarrow> Inl e
      | Inr m \<Rightarrow>
          Inr (print record
                (print (''Could not parse the following record '' @
                        ''Please fill bug report on http://github.com/biokit'')
                  (print m st))))"

fun load_loop :: "string list \<Rightarrow> taxonomy \<Rightarrow> (error + unit) \<times> taxonomy" where
  "load_loop [] st = (Inr (), st)"
| "load_loop (record # rest) st =
     (case try_block st record of
        Inr st' \<Rightarrow> load_loop rest st'
      | Inl err \<Rightarrow>
          (case handler st err record of
             Inl e \<Rightarrow> (Inl e, st)
           | Inr st' \<Rightarrow> load_loop rest st'))"

definition load_records :: "taxonomy \<Rightarrow> (error + unit) \<times> taxonomy" where
  "load_records st =
     (let st1 = st\<lparr>records := []\<rparr>;
          data = py_split (py_strip (flat_file st1)) [CHR ''/'', CHR ''/'', CHR 0x0A];
          st2 = (if verbose st1 then print ''Loading all taxon records.'' st1 else st1)
      in load_loop data st2)"

definition load_if_empty :: "taxonomy \<Rightarrow> (error + unit) \<times> taxonomy" where
  "load_if_empty st = (if length (records st) = 0 then load_records st else (Inr (), st))"

section \<open>The lineage walker\<close>

text \<open>
  \<^verbatim>\<open>_gen_lineage_and_rank(taxon, lineage_rank=[])\<close> appends to and reverses the list object
  it is given. That object is either the one default list of the function, shared by every
  call that omits the argument, or a list that the caller has just made and nobody else
  holds. Python bounds the depth of the recursion: \<^verbatim>\<open>frames\<close> is the number of calls of
  the walker that the interpreter's recursion limit still allows; when none is left the
  call raises \<^verbatim>\<open>RecursionError\<close>.
\<close>

datatype lineage_ref = Default_list | Fresh_list "(string \<times> string) list"

fun list_append :: "lineage_ref \<Rightarrow> string \<times> string \<Rightarrow> taxonomy \<Rightarrow> lineage_ref \<times> taxonomy" where
  "list_append Default_list x st =
     (Default_list, st\<lparr>default_lineage_rank := default_lineage_rank st @ [x]\<rparr>)"
| "list_append (Fresh_list xs) x st = (Fresh_list (xs @ [x]), st)"

fun list_reverse :: "lineage_ref \<Rightarrow> taxonomy \<Rightarrow> lineage_ref \<times> taxonomy" where
  "list_reverse Default_list st =
     (Default_list, st\<lparr>default_lineage_rank := rev (default_lineage_rank st)\<rparr>)"
| "list_reverse (Fresh_list xs) st = (Fresh_list (rev xs), st)"

fun list_value :: "lineage_ref \<Rightarrow> taxonomy \<Rightarrow> (string \<times> string) list" where
  "list_value Default_list st = default_lineage_rank st"
| "list_value (Fresh_list xs) st = xs"

fun gen_lineage_and_rank ::
  "nat \<Rightarrow> taxonomy \<Rightarrow> int \<Rightarrow> lineage_ref \<Rightarrow> (error + (string \<times> string) list) \<times> taxonomy"
where
  "gen_lineage_and_rank 0 st taxon lineage_rank = (Inl RecursionError, st)"
| "gen_lineage_and_rank (Suc frames) st taxon lineage_rank =
     (case load_if_empty st of
        (Inl e, st1) \<Rightarrow> (Inl e, st1)
      | (Inr u, st1) \<Rightarrow>
          (case dict_get PInt (records st1) taxon of
             Inl e \<Rightarrow> (Inl e, st1)
           | Inr record \<Rightarrow>
               (case field record ''parent'' of
                  Inl e \<Rightarrow> (Inl e, st1)
                | Inr p \<Rightarrow>
                    (case int_of_str (interp st1) p of
                       Inl e \<Rightarrow> (Inl e, st1)
                     | Inr parent \<Rightarrow>
                         if parent \<notin> set [0] then
                           (case field record ''scientific_name'' of
                              Inl e \<Rightarrow> (Inl e, st1)
                            | Inr name \<Rightarrow>
                                (case field record ''rank'' of
                                   Inl e \<Rightarrow> (Inl e, st1)
                                 | Inr rank \<Rightarrow>
                                     (case list_append lineage_rank (name, rank) st1 of
                                        (l, st2) \<Rightarrow> gen_lineage_and_rank frames st2 parent l)))
                         else
                           (case list_reverse lineage_rank st1 of
                              (l, st2) \<Rightarrow> (Inr (list_value l st2), st2))))))"

definition get_lineage :: "nat \<Rightarrow> taxonomy \<Rightarrow> pyval \<Rightarrow> (error + string list) \<times> taxonomy" where
  "get_lineage frames st taxon =
     (case py_int (interp st) taxon of
        Inl e \<Rightarrow> (Inl e, st)
      | Inr t \<Rightarrow>
          (case gen_lineage_and_rank frames st t (Fresh_list []) of
             (Inl e, st1) \<Rightarrow> (Inl e, st1)
           | (Inr lineage, st1) \<Rightarrow> (Inr (map fst lineage), st1)))"

definition get_lineage_and_rank ::
  "nat \<Rightarrow> taxonomy \<Rightarrow> pyval \<Rightarrow> (error + (string \<times> string) list) \<times> taxonomy"
where
  "get_lineage_and_rank frames st taxon =
     (case py_int (interp st) taxon of
        Inl e \<Rightarrow> (Inl e, st)
      | Inr t \<Rightarrow> gen_lineage_and_rank frames st t (Fresh_list []))"

section \<open>Children and the family tree\<close>

text \<open>
  The first comprehension of \<^verbatim>\<open>get_children\<close> visits the keys in order, reads
  \<^verbatim>\<open>self.records[k]['parent']\<close> of each and keeps the records whose parent text is
  \<^verbatim>\<open>str(taxon)\<close>; the second reads \<^verbatim>\<open>child['id']\<close> of each record kept.
\<close>

fun scan_children :: "store \<Rightarrow> string \<Rightarrow> int list \<Rightarrow> error + dico list" where
  "scan_children rs taxon [] = Inr []"
| "scan_children rs taxon (k # ks) =
     (case dict_get PInt rs k of
        Inl e \<Rightarrow> Inl e
      | Inr r \<Rightarrow>
          (case field r ''parent'' of
             Inl e \<Rightarrow> Inl e
           | Inr p \<Rightarrow>
               (case scan_children rs taxon ks of
                  Inl e \<Rightarrow> Inl e
                | Inr children \<Rightarrow> Inr (if p = taxon then r # children else children))))"

fun child_ids :: "dico list \<Rightarrow> error + string list" where
  "child_ids [] = Inr []"
| "child_ids (child # children) =
     (case field child ''id'' of
        Inl e \<Rightarrow> Inl e
      | Inr i \<Rightarrow> (case child_ids children of Inl e \<Rightarrow> Inl e | Inr ids \<Rightarrow> Inr (i # ids)))"

definition get_children :: "taxonomy \<Rightarrow> pyval \<Rightarrow> (error + string list) \<times> taxonomy" where
  "get_children st taxon =
     (case load_if_empty st of
        (Inl e, st1) \<Rightarrow> (Inl e, st1)
      | (Inr u, st1) \<Rightarrow>
          (case scan_children (records st1) (py_str taxon) (dict_keys (records st1)) of
             Inl e \<Rightarrow> (Inl e, st1)
           | Inr children \<Rightarrow>
               (case child_ids children of
                  Inl e \<Rightarrow> (Inl e, st1)
                | Inr ids \<Rightarrow> (Inr ids, st1))))"

type_synonym edge = "pyval \<times> pyval"

text \<open>
  One pass of the \<^verbatim>\<open>for parent in children\<close> loop: every child found is appended to
  \<^verbatim>\<open>new_children\<close> and its edge to \<^verbatim>\<open>tree\<close>.
\<close>

fun expand_round ::
  "taxonomy \<Rightarrow> pyval list \<Rightarrow> pyval list \<Rightarrow> edge list
     \<Rightarrow> (error + pyval list \<times> edge list) \<times> taxonomy"
where
  "expand_round st [] new_children tree = (Inr (new_children, tree), st)"
| "expand_round st (parent # rest) new_children tree =
     (case get_children st parent of
        (Inl e, st1) \<Rightarrow> (Inl e, st1)
      | (Inr ids, st1) \<Rightarrow>
          expand_round st1 rest
            (new_children @ map PStr ids)
            (tree @ map (\<lambda>this. (parent, PStr this)) ids))"

text \<open>
  The \<^verbatim>\<open>while len(children) != 0\<close> loop. Nothing bounds the number of its rounds, so
  its result is an option: \<^verbatim>\<open>None\<close> is a loop that never ends. The test of
  \<^verbatim>\<open>len(tree) > limits\<close> at the end of a round prints and does nothing else.
\<close>

partial_function (option) family_tree_while ::
  "taxonomy \<Rightarrow> int \<Rightarrow> edge list \<Rightarrow> pyval list \<Rightarrow> ((error + edge list) \<times> taxonomy) option"
where
  "family_tree_while st limits tree children =
     (if length children \<noteq> 0 then
        (case expand_round st children [] tree of
           (Inl e, st1) \<Rightarrow> Some (Inl e, st1)
         | (Inr (new_children, tree1), st1) \<Rightarrow>
             family_tree_while
               (if int (length tree1) > limits
                then print ''Reached limit number of nodes'' st1 else st1)
               limits tree1 new_children)
      else Some (Inr tree, st))"

definition get_family_tree_uniprot ::
  "taxonomy \<Rightarrow> pyval \<Rightarrow> int \<Rightarrow> ((error + edge list) \<times> taxonomy) option"
where
  "get_family_tree_uniprot st taxon limits = family_tree_while st limits [] [taxon]"

text \<open>
  \<^verbatim>\<open>get_family_tree\<close> reads a name \<^verbatim>\<open>method\<close> that is neither a parameter nor a local:
  Python looks it up among the globals. \<^verbatim>\<open>method\<close> below is that binding, \<^verbatim>\<open>None\<close> when
  the name is unbound, as it is in this module. The call of \<^verbatim>\<open>_get_family_tree_uniprot\<close>
  is a statement, its value is dropped and the function returns Python's \<^verbatim>\<open>None\<close>;
  \<^verbatim>\<open>notImplementedError\<close> is not a name of Python either.
\<close>

definition get_family_tree ::
  "pyval option \<Rightarrow> taxonomy \<Rightarrow> pyval \<Rightarrow> int \<Rightarrow> ((error + unit) \<times> taxonomy) option"
where
  "get_family_tree method st taxon limits =
     (case method of
        None \<Rightarrow> Some (Inl (NameError ''method''), st)
      | Some m \<Rightarrow>
          if m = PStr ''uniprot'' then
            (case get_family_tree_uniprot st taxon limits of
               None \<Rightarrow> None
             | Some (Inl e, st1) \<Rightarrow> Some (Inl e, st1)
             | Some (Inr tree, st1) \<Rightarrow> Some (Inr (), st1))
          else Some (Inl (NameError ''notImplementedError''), st))"

section \<open>Predicates and example inputs used by the theorems\<close>

text \<open>
  \<^verbatim>\<open>missing_ancestor v rs n t\<close>: following parent fields from \<^verbatim>\<open>t\<close>, each read with
  \<^verbatim>\<open>int\<close> and none of them the root sentinel, the \<^verbatim>\<open>n\<close>-th identifier reached is not a
  key of the store \<^verbatim>\<open>rs\<close> (\<^verbatim>\<open>n = 0\<close>: \<^verbatim>\<open>t\<close> itself is not a key).
\<close>

fun missing_ancestor :: "python \<Rightarrow> store \<Rightarrow> nat \<Rightarrow> int \<Rightarrow> bool" where
  "missing_ancestor v rs 0 t = (map_of rs t = None)"
| "missing_ancestor v rs (Suc n) t =
     (case map_of rs t of
        None \<Rightarrow> False
      | Some r \<Rightarrow>
          (case map_of r ''parent'' of
             None \<Rightarrow> False
           | Some p \<Rightarrow>
               (case int_of_str v p of
                  Inl e \<Rightarrow> False
                | Inr q \<Rightarrow> q \<noteq> 0 \<and> missing_ancestor v rs n q)))"

text \<open>
  What one call of the walker reads from the store: an error, the end of the walk at a
  record whose parent is the sentinel, or the parent to visit next with the pair to append.
  The walker is this look-up between the lazy load and the recursive call
  (lemma \<^verbatim>\<open>walker_unfold\<close>).
\<close>

definition look_up ::
  "python \<Rightarrow> store \<Rightarrow> int \<Rightarrow> error + (int \<times> string \<times> string) option"
where
  "look_up v rs taxon =
     (case dict_get PInt rs taxon of
        Inl e \<Rightarrow> Inl e
      | Inr record \<Rightarrow>
          (case field record ''parent'' of
             Inl e \<Rightarrow> Inl e
           | Inr p \<Rightarrow>
               (case int_of_str v p of
                  Inl e \<Rightarrow> Inl e
                | Inr parent \<Rightarrow>
                    if parent \<notin> set [0] then
                      (case field record ''scientific_name'' of
                         Inl e \<Rightarrow> Inl e
                       | Inr name \<Rightarrow>
                           (case field record ''rank'' of
                              Inl e \<Rightarrow> Inl e
                            | Inr rank \<Rightarrow> Inr (Some (parent, name, rank))))
                    else Inr None)))"

text \<open>The items of a pattern that capture, and the stores whose keys are the numbers of their records' \<^verbatim>\<open>id\<close> fields.\<close>

fun is_grp :: "item \<Rightarrow> bool" where
  "is_grp (Grp c m) = True"
| "is_grp _ = False"

definition keyed_by_id :: "store \<Rightarrow> bool" where
  "keyed_by_id rs =
     list_all (\<lambda>(k, d). case map_of d ''id'' of
                            None \<Rightarrow> False
                          | Some g \<Rightarrow> g \<noteq> [] \<and> list_all is_digit g \<and> digits_val g = k) rs"

text \<open>Two states that differ at most in what was printed, the flag and the default list.\<close>

definition same_inputs :: "taxonomy \<Rightarrow> taxonomy \<Rightarrow> bool" where
  "same_inputs a b =
     (interp a = interp b \<and> flat_file a = flat_file b \<and> records a = records b)"

definition kept :: "taxonomy \<Rightarrow> taxonomy \<Rightarrow> bool" where
  "kept a b =
     (interp b = interp a \<and> flat_file b = flat_file a \<and>
      default_lineage_rank b = default_lineage_rank a)"

definition taxonomy_of :: "python \<Rightarrow> string \<Rightarrow> store \<Rightarrow> taxonomy" where
  "taxonomy_of v text rs =
     \<lparr>interp = v, flat_file = text, verbose = False, records = rs,
      default_lineage_rank = [], printed = []\<rparr>"

text \<open>A flat file of three records in a chain, 1 the root, and the store it loads to.\<close>

definition chain_corpus :: string where
  "chain_corpus =
     ''ID : 1\<newline>PARENT ID : 0\<newline>RANK : no rank\<newline>SCIENTIFIC NAME : root\<newline>//\<newline>'' @
     ''ID : 2\<newline>PARENT ID : 1\<newline>RANK : superkingdom\<newline>SCIENTIFIC NAME : Bacteria\<newline>//\<newline>'' @
     ''ID : 3\<newline>PARENT ID : 2\<newline>RANK : phylum\<newline>SCIENTIFIC NAME : Aquificae\<newline>//\<newline>''"

definition root_record :: dico where
  "root_record =
     [(''raw'', ''ID : 1\<newline>PARENT ID : 0\<newline>RANK : no rank\<newline>SCIENTIFIC NAME : root\<newline>''),
      (''id'', ''1''), (''parent'', ''0''),
      (''scientific_name'', ''root''), (''rank'', ''no rank'')]"

definition bacteria_record :: dico where
  "bacteria_record =
     [(''raw'', ''ID : 2\<newline>PARENT ID : 1\<newline>RANK : superkingdom\<newline>SCIENTIFIC NAME : Bacteria\<newline>''),
      (''id'', ''2''), (''parent'', ''1''),
      (''scientific_name'', ''Bacteria''), (''rank'', ''superkingdom'')]"

definition aquificae_record :: dico where
  "aquificae_record =
     [(''raw'', ''ID : 3\<newline>PARENT ID : 2\<newline>RANK : phylum\<newline>SCIENTIFIC NAME : Aquificae\<newline>//''),
      (''id'', ''3''), (''parent'', ''2''),
      (''scientific_name'', ''Aquificae''), (''rank'', ''phylum'')]"

definition chain_store :: store where
  "chain_store = [(1, root_record), (2, bacteria_record), (3, aquificae_record)]"

definition chain_taxonomy :: taxonomy where
  "chain_taxonomy = taxonomy_of Py3 chain_corpus chain_store"

text \<open>The same file with its first two records lost: record 3 names a parent that is absent.\<close>

definition broken_taxonomy :: taxonomy where
  "broken_taxonomy = taxonomy_of Py3 [] [(3, aquificae_record)]"

text \<open>A root with two children, and the same store with a record that has no parent line.\<close>

definition siblings_store :: store where
  "siblings_store =
     [(1, [(''raw'', ''ID : 1\<newline>PARENT ID : 0\<newline>''), (''id'', ''1''), (''parent'', ''0'')]),
      (2, [(''raw'', ''ID : 2\<newline>PARENT ID : 1\<newline>''), (''id'', ''2''), (''parent'', ''1'')]),
      (3, [(''raw'', ''ID : 3\<newline>PARENT ID : 1\<newline>''), (''id'', ''3''), (''parent'', ''1'')])]"

definition parentless_record :: dico where
  "parentless_record =
     [(''raw'', ''ID : 9\<newline>SCIENTIFIC NAME : unplaced\<newline>//''),
      (''id'', ''9''), (''scientific_name'', ''unplaced'')]"

definition parentless_corpus :: string where
  "parentless_corpus =
     ''ID : 1\<newline>PARENT ID : 0\<newline>//\<newline>ID : 2\<newline>PARENT ID : 1\<newline>//\<newline>'' @
     ''ID : 3\<newline>PARENT ID : 1\<newline>//\<newline>ID : 9\<newline>SCIENTIFIC NAME : unplaced\<newline>//\<newline>''"

definition parentless_store :: store where
  "parentless_store = siblings_store @ [(9, parentless_record)]"

text \<open>A file whose second block has no line that the \<^verbatim>\<open>ID\<close> pattern can match.\<close>

definition bad_block_corpus :: string where
  "bad_block_corpus =
     ''ID : 1\<newline>PARENT ID : 0\<newline>//\<newline>SCIENTIFIC NAME : unnamed\<newline>//\<newline>'' @
     ''ID : 2\<newline>PARENT ID : 1\<newline>//\<newline>''"

text \<open>A file whose second block has a \<^verbatim>\<open>PARENT ID\<close> line and no \<^verbatim>\<open>ID\<close> line.\<close>

definition no_id_line_corpus :: string where
  "no_id_line_corpus =
     ''ID : 1\<newline>PARENT ID : 0\<newline>SCIENTIFIC NAME : root\<newline>//\<newline>'' @
     ''PARENT ID : 1\<newline>SCIENTIFIC NAME : orphan\<newline>//\<newline>'' @
     ''ID : 2\<newline>PARENT ID : 1\<newline>//\<newline>''"

text \<open>A store in which record 1 is its own parent.\<close>

definition cyclic_store :: store where
  "cyclic_store = [(1, [(''raw'', ''ID : 1\<newline>PARENT ID : 1''), (''id'', ''1''), (''parent'', ''1'')])]"

section \<open>Basic facts about look-ups and the lazy load\<close>

lemma load_if_empty_loaded: "records st \<noteq> [] \<Longrightarrow> load_if_empty st = (Inr (), st)"
  by (simp add: load_if_empty_def)

lemma load_if_empty_again:
  "load_if_empty st = (Inr (), st1) \<Longrightarrow> records st1 \<noteq> [] \<Longrightarrow> load_if_empty st1 = (Inr (), st1)"
  by (simp add: load_if_empty_def)

lemma dict_get_Some: "map_of d k = Some v \<Longrightarrow> dict_get key d k = Inr v"
  by (simp add: dict_get_def)

lemma dict_get_None: "map_of d k = None \<Longrightarrow> dict_get key d k = Inl (KeyError (key k))"
  by (simp add: dict_get_def)

lemma field_Some: "map_of d k = Some v \<Longrightarrow> field d k = Inr v"
  by (simp add: field_def dict_get_def)

lemma field_None: "map_of d k = None \<Longrightarrow> field d k = Inl (KeyError (PStr k))"
  by (simp add: field_def dict_get_def)

subsection \<open>Rule sets for running the model on a concrete input\<close>

lemmas loader_eval =
  load_records_def taxonomy_of_def py_strip_def py_split_def is_space_def is_digit_def
  try_block_def handler_def print_def interpret_record_def set_if_match_def rx_search.simps
  child_match_def parent_match_def rank_match_def name_match_def field_pattern_def
  field_def dict_get_def dict_set_def int_of_str_def int_body_def digits_val_def digit_val_def

lemmas query_eval =
  taxonomy_of_def get_lineage_def get_children_def load_if_empty_def field_def dict_get_def
  dict_keys_def int_of_str_def int_body_def digits_val_def digit_val_def py_strip_def
  is_space_def is_digit_def nat_digits.simps digit_char_def print_def

lemmas chain_eval = chain_taxonomy_def chain_store_def root_record_def bacteria_record_def
  aquificae_record_def

text \<open>The example stores are what \<^verbatim>\<open>load_records\<close> makes of the example files.\<close>

lemma load_chain_corpus:
  "load_records (taxonomy_of v chain_corpus rs) = (Inr (), taxonomy_of v chain_corpus chain_store)"
  by (simp add: loader_eval chain_corpus_def chain_store_def root_record_def bacteria_record_def
      aquificae_record_def)

lemma load_parentless_corpus:
  "load_records (taxonomy_of v parentless_corpus rs) =
     (Inr (), taxonomy_of v parentless_corpus parentless_store)"
  by (simp add: loader_eval parentless_corpus_def parentless_store_def siblings_store_def
      parentless_record_def)

lemma lazy_load_chain:
  "load_if_empty (taxonomy_of v chain_corpus []) = (Inr (), taxonomy_of v chain_corpus chain_store)"
  by (simp add: load_if_empty_def load_chain_corpus) (simp add: taxonomy_of_def)

section \<open>The record parser\<close>

text \<open>
  What a pattern with a digit group captures is a non-empty run of digits, which \<^verbatim>\<open>int\<close>
  always converts. So the \<^verbatim>\<open>try\<close> of the loader fails on a block exactly when the \<^verbatim>\<open>ID\<close>
  pattern matches nowhere in it, and then with \<^verbatim>\<open>KeyError('id')\<close>.
\<close>

lemma first_some_map:
  "first_some (map f xs) = Some y \<Longrightarrow> \<exists>x\<in>set xs. f x = Some y"
proof (induction xs)
  case Nil
  then show ?case by simp
next
  case (Cons a xs)
  then show ?case by (cases "f a") auto
qed

lemma rx_match_no_group:
  "\<forall>i\<in>set p. \<not> is_grp i \<Longrightarrow> rx_match p s g = Some g' \<Longrightarrow> g' = g"
proof (induction p s g rule: rx_match.induct)
  case (1 s g)
  then show ?case by simp
next
  case (2 l r s g)
  then show ?case by (auto split: if_splits)
next
  case (3 c m r s g)
  from "3.prems"(2) have "first_some (map (\<lambda>k. rx_match r (drop k s) g)
      (rev [m..<Suc (length (takeWhile (in_cls c) s))])) = Some g'" by simp
  from first_some_map [OF this]
  obtain k where "k \<in> set (rev [m..<Suc (length (takeWhile (in_cls c) s))])"
    and "rx_match r (drop k s) g = Some g'" by blast
  with "3.IH" [of k] "3.prems"(1) show ?case by simp
next
  case (4 c m r s g)
  then show ?case by simp
qed

lemma rx_match_digits:
  assumes "rx_match p s g = Some g'"
    and "\<forall>i\<in>set p. \<forall>c m. i = Grp c m \<longrightarrow> c = Digit \<and> 0 < m"
    and "g \<noteq> [] \<and> list_all is_digit g \<or> (\<exists>i\<in>set p. is_grp i)"
  shows "g' \<noteq> [] \<and> list_all is_digit g'"
  using assms
proof (induction p s g rule: rx_match.induct)
  case (1 s g)
  then show ?case by simp
next
  case (2 l r s g)
  then show ?case by (auto split: if_splits)
next
  case (3 c m r s g)
  from "3.prems"(1) have "first_some (map (\<lambda>k. rx_match r (drop k s) g)
      (rev [m..<Suc (length (takeWhile (in_cls c) s))])) = Some g'" by simp
  from first_some_map [OF this]
  obtain k where k: "k \<in> set (rev [m..<Suc (length (takeWhile (in_cls c) s))])"
    and m: "rx_match r (drop k s) g = Some g'" by blast
  from "3.prems"(2,3) have "\<forall>i\<in>set r. \<forall>c m. i = Grp c m \<longrightarrow> c = Digit \<and> 0 < m"
    and "g \<noteq> [] \<and> list_all is_digit g \<or> (\<exists>i\<in>set r. is_grp i)" by auto
  with "3.IH" [OF k m] show ?case by blast
next
  case (4 c m r s g)
  from "4.prems"(1) have "first_some (map (\<lambda>k. rx_match r (drop k s) (take k s))
      (rev [m..<Suc (length (takeWhile (in_cls c) s))])) = Some g'" by simp
  from first_some_map [OF this]
  obtain k where k: "k \<in> set (rev [m..<Suc (length (takeWhile (in_cls c) s))])"
    and mt: "rx_match r (drop k s) (take k s) = Some g'" by blast
  from "4.prems"(2) have c: "c = Digit" and m: "0 < m" by auto
  have e: "in_cls Digit = is_digit" by (rule ext) simp
  from k m have k0: "0 < k" and kl: "k \<le> length (takeWhile is_digit s)" using c e by auto
  have "take k s = take k (takeWhile is_digit s)"
    using kl by (metis takeWhile_eq_take take_take min.absorb1)
  moreover have "list_all is_digit (takeWhile is_digit s)"
    by (simp add: list_all_iff) (meson set_takeWhileD)
  ultimately have d: "list_all is_digit (take k s)"
    by (metis list_all_iff in_set_takeD)
  from k0 kl have ne: "take k s \<noteq> []"
    by (metis length_takeWhile_le le_trans not_less take_eq_Nil leD length_0_conv less_le_trans list.size(3) not_less_zero)
  from "4.prems"(2) have "\<forall>i\<in>set r. \<forall>c m. i = Grp c m \<longrightarrow> c = Digit \<and> 0 < m" by auto
  with "4.IH" [OF k mt] d ne show ?case by blast
qed

lemma rx_search_digits:
  assumes "rx_search p s = Some g"
    and "\<forall>i\<in>set p. \<forall>c m. i = Grp c m \<longrightarrow> c = Digit \<and> 0 < m"
    and "\<exists>i\<in>set p. is_grp i"
  shows "g \<noteq> [] \<and> list_all is_digit g"
  using assms(1)
proof (induction s)
  case Nil
  then have "rx_match p [] [] = Some g"
    by (subst (asm) rx_search.simps) (auto split: option.splits)
  with assms(2,3) show ?case by (intro rx_match_digits [of p "[]" "[]" g]) auto
next
  case (Cons a s)
  show ?case
  proof (cases "rx_match p (a # s) []")
    case None
    with Cons.prems have "rx_search p s = Some g"
      by (subst (asm) rx_search.simps) simp
    then show ?thesis by (rule Cons.IH)
  next
    case (Some g0)
    with Cons.prems have "g0 = g" by (subst (asm) rx_search.simps) simp
    with Some assms(2,3) show ?thesis by (intro rx_match_digits [of p "a # s" "[]" g]) auto
  qed
qed

lemma child_match_digits:
  "rx_search child_match s = Some g \<Longrightarrow> g \<noteq> [] \<and> list_all is_digit g"
  by (erule rx_search_digits) (simp_all add: child_match_def field_pattern_def)

lemma parent_match_digits:
  "rx_search parent_match s = Some g \<Longrightarrow> g \<noteq> [] \<and> list_all is_digit g"
  by (erule rx_search_digits) (simp_all add: parent_match_def field_pattern_def)

lemma digit_not_space: "is_digit c \<Longrightarrow> \<not> is_space c"
  by (auto simp: is_digit_def is_space_def)

lemma int_of_digits:
  assumes "g \<noteq> []" and "list_all is_digit g"
  shows "int_of_str v g = Inr (digits_val g)"
proof -
  from assms obtain c cs where g: "g = c # cs" and c: "is_digit c" by (cases g) auto
  from assms have l: "is_digit (last g)" by (simp add: list_all_iff)
  have "dropWhile is_space g = g" using g c by (simp add: digit_not_space)
  moreover have "dropWhile is_space (rev g) = rev g"
    using assms(1) l by (cases "rev g") (auto simp: digit_not_space last_rev hd_rev dest: arg_cong [where f = hd])
  ultimately have s: "py_strip g = g" by (simp add: py_strip_def)
  from c have "c \<noteq> CHR ''-''" and "c \<noteq> CHR ''+''" by (auto simp: is_digit_def)
  with s g assms show ?thesis by (simp add: int_of_str_def int_body_def)
qed

lemma interpret_record_id:
  "map_of (interpret_record r) ''id'' = rx_search child_match r"
  by (simp add: interpret_record_def set_if_match_def dict_set_def update_conv' split: option.splits)

lemma interpret_record_parent:
  "map_of (interpret_record r) ''parent'' = rx_search parent_match r"
  by (simp add: interpret_record_def set_if_match_def dict_set_def update_conv' split: option.splits)

lemma interpret_record_raw:
  "map_of (interpret_record r) ''raw'' = Some r"
  by (simp add: interpret_record_def set_if_match_def dict_set_def update_conv' split: option.splits)

lemma try_block_no_id:
  "rx_search child_match r = None \<Longrightarrow> try_block st r = Inl (KeyError (PStr ''id''))"
  by (simp add: try_block_def field_def dict_get_def interpret_record_id)

lemma try_block_id:
  assumes "rx_search child_match r = Some g"
  shows "try_block st r =
         Inr (st\<lparr>records := dict_set (records st) (digits_val g) (interpret_record r)\<rparr>)"
proof -
  from child_match_digits [OF assms] have "int_of_str (interp st) g = Inr (digits_val g)"
    by (simp add: int_of_digits)
  with assms show ?thesis
    by (simp add: try_block_def field_def dict_get_def interpret_record_id)
qed

lemma try_block_fails_iff:
  "(\<exists>e. try_block st r = Inl e) \<longleftrightarrow> rx_search child_match r = None"
  by (cases "rx_search child_match r") (simp_all add: try_block_no_id try_block_id)

lemma try_block_error:
  "try_block st r = Inl e \<Longrightarrow> e = KeyError (PStr ''id'')"
  by (cases "rx_search child_match r") (simp_all add: try_block_no_id try_block_id)

section \<open>What the operations read and what they leave alone\<close>

text \<open>
  The result of the loader and of the walker, and the store they leave, depend on the
  interpreter, the flat file and the store only; none of them changes the interpreter, the
  flat file or the default list of the walker.
\<close>

lemma try_block_same:
  "same_inputs a b \<Longrightarrow> rel_sum (=) same_inputs (try_block a r) (try_block b r)"
  by (auto simp: same_inputs_def try_block_def Let_def split: sum.splits)

lemma handler_same:
  "same_inputs a b \<Longrightarrow> rel_sum (=) same_inputs (handler a e r) (handler b e r)"
  by (auto simp: same_inputs_def handler_def print_def split: sum.splits)

lemma load_loop_same:
  "same_inputs a b \<Longrightarrow> rel_prod (=) same_inputs (load_loop data a) (load_loop data b)"
proof (induction data arbitrary: a b)
  case Nil
  then show ?case by simp
next
  case (Cons r data)
  note t = try_block_same [OF Cons.prems, of r]
  show ?case
  proof (cases "try_block a r")
    case (Inr a')
    with t obtain b' where "try_block b r = Inr b'" and "same_inputs a' b'"
      by (cases "try_block b r") auto
    with Inr Cons.IH show ?thesis by simp
  next
    case (Inl e)
    with t have tb: "try_block b r = Inl e" by (cases "try_block b r") auto
    note h = handler_same [OF Cons.prems, of e r]
    show ?thesis
    proof (cases "handler a e r")
      case hl: (Inl e')
      with h have "handler b e r = Inl e'" by (cases "handler b e r") auto
      with Inl tb hl Cons.prems show ?thesis by simp
    next
      case hr: (Inr a')
      with h obtain b' where "handler b e r = Inr b'" and "same_inputs a' b'"
        by (cases "handler b e r") auto
      with Inl tb hr Cons.IH show ?thesis by simp
    qed
  qed
qed

lemma load_records_same:
  assumes "interp a = interp b" and "flat_file a = flat_file b"
  shows "rel_prod (=) same_inputs (load_records a) (load_records b)"
proof -
  let ?a = "a\<lparr>records := []\<rparr>" and ?b = "b\<lparr>records := []\<rparr>"
  have "same_inputs (if verbose ?a then print ''Loading all taxon records.'' ?a else ?a)
          (if verbose ?b then print ''Loading all taxon records.'' ?b else ?b)"
    using assms by (simp add: same_inputs_def print_def)
  then show ?thesis
    using assms by (simp add: load_records_def Let_def load_loop_same)
qed

lemma load_if_empty_same:
  "same_inputs a b \<Longrightarrow> rel_prod (=) same_inputs (load_if_empty a) (load_if_empty b)"
proof -
  assume s: "same_inputs a b"
  then have e: "interp a = interp b" "flat_file a = flat_file b" "records a = records b"
    by (simp_all add: same_inputs_def)
  show ?thesis
  proof (cases "records a = []")
    case True
    with e load_records_same [OF e(1,2)] show ?thesis by (simp add: load_if_empty_def)
  next
    case False
    with e s show ?thesis by (simp add: load_if_empty_def)
  qed
qed

lemma walker_unfold:
  "gen_lineage_and_rank (Suc f) a t (Fresh_list acc) =
     (case load_if_empty a of
        (Inl e, a1) \<Rightarrow> (Inl e, a1)
      | (Inr u, a1) \<Rightarrow>
          (case look_up (interp a1) (records a1) t of
             Inl e \<Rightarrow> (Inl e, a1)
           | Inr None \<Rightarrow> (Inr (rev acc), a1)
           | Inr (Some (q, x)) \<Rightarrow> gen_lineage_and_rank f a1 q (Fresh_list (acc @ [x]))))"
  by (simp add: look_up_def split: prod.splits sum.splits)

lemma walker_same:
  "same_inputs a b \<Longrightarrow>
   rel_prod (=) same_inputs (gen_lineage_and_rank f a t (Fresh_list acc))
                            (gen_lineage_and_rank f b t (Fresh_list acc))"
proof (induction f arbitrary: a b t acc)
  case 0
  then show ?case by simp
next
  case (Suc f)
  obtain ra a1 where la: "load_if_empty a = (ra, a1)" by (cases "load_if_empty a")
  obtain rb b1 where lb: "load_if_empty b = (rb, b1)" by (cases "load_if_empty b")
  from load_if_empty_same [OF Suc.prems] la lb have rr: "rb = ra" and s1: "same_inputs a1 b1"
    by simp_all
  from s1 have eqs: "records b1 = records a1" "interp b1 = interp a1"
    by (simp_all add: same_inputs_def)
  show ?case
  proof (cases ra)
    case (Inl e)
    with la lb rr s1 show ?thesis by (simp only: walker_unfold) simp
  next
    case (Inr u)
    show ?thesis
    proof (cases "look_up (interp a1) (records a1) t")
      case (Inl e)
      with la lb rr s1 Inr eqs show ?thesis by (simp only: walker_unfold) simp
    next
      case lk: (Inr res)
      show ?thesis
      proof (cases res)
        case None
        with la lb rr s1 Inr eqs lk show ?thesis by (simp only: walker_unfold) simp
      next
        case (Some qx)
        obtain q x where qx: "qx = (q, x)" by (cases qx)
        from Suc.IH [OF s1, of q "acc @ [x]"] la lb rr Inr eqs lk Some qx
        show ?thesis by (simp only: walker_unfold) simp
      qed
    qed
  qed
qed

lemma get_lineage_same:
  "same_inputs a b \<Longrightarrow> fst (get_lineage f a t) = fst (get_lineage f b t)"
proof -
  assume s: "same_inputs a b"
  then have i: "interp b = interp a" by (simp add: same_inputs_def)
  show ?thesis
  proof (cases "py_int (interp a) t")
    case (Inl e)
    with i show ?thesis by (simp add: get_lineage_def)
  next
    case (Inr n)
    from walker_same [OF s, of f n "[]"] Inr i show ?thesis
      by (auto simp: get_lineage_def rel_prod_sel split: prod.splits sum.splits)
  qed
qed

lemma get_lineage_and_rank_same:
  "same_inputs a b \<Longrightarrow> fst (get_lineage_and_rank f a t) = fst (get_lineage_and_rank f b t)"
proof -
  assume s: "same_inputs a b"
  then have i: "interp b = interp a" by (simp add: same_inputs_def)
  show ?thesis
  proof (cases "py_int (interp a) t")
    case (Inl e)
    with i show ?thesis by (simp add: get_lineage_and_rank_def)
  next
    case (Inr n)
    from walker_same [OF s, of f n "[]"] Inr i show ?thesis
      by (auto simp: get_lineage_and_rank_def rel_prod_sel)
  qed
qed

lemma kept_trans: "kept x y \<Longrightarrow> kept y z \<Longrightarrow> kept x z"
  by (simp add: kept_def)

lemma try_block_kept: "try_block a r = Inr a' \<Longrightarrow> kept a a'"
  by (auto simp: try_block_def kept_def Let_def split: sum.splits)

lemma handler_kept: "handler a e r = Inr a' \<Longrightarrow> kept a a'"
  by (auto simp: handler_def kept_def print_def split: sum.splits)

lemma load_loop_kept: "kept a (snd (load_loop data a))"
proof (induction data arbitrary: a)
  case Nil
  show ?case by (simp add: kept_def)
next
  case (Cons r data)
  show ?case
  proof (cases "try_block a r")
    case (Inr a')
    then have "kept a a'" by (rule try_block_kept)
    then have "kept a (snd (load_loop data a'))" using Cons.IH by (rule kept_trans)
    with Inr show ?thesis by simp
  next
    case (Inl e)
    show ?thesis
    proof (cases "handler a e r")
      case hl: (Inl e')
      with Inl show ?thesis by (simp add: kept_def)
    next
      case hr: (Inr a')
      then have "kept a a'" by (rule handler_kept)
      then have "kept a (snd (load_loop data a'))" using Cons.IH by (rule kept_trans)
      with Inl hr show ?thesis by simp
    qed
  qed
qed

lemma load_if_empty_kept: "kept a (snd (load_if_empty a))"
proof -
  let ?a = "a\<lparr>records := []\<rparr>"
  let ?b = "if verbose ?a then print ''Loading all taxon records.'' ?a else ?a"
  have "kept a ?b" by (simp add: kept_def print_def)
  moreover have "kept ?b (snd (load_loop (py_split (py_strip (flat_file ?a)) [CHR ''/'', CHR ''/'', CHR 0x0A]) ?b))"
    by (rule load_loop_kept)
  ultimately have "kept a (snd (load_records a))"
    by (simp add: load_records_def Let_def kept_def)
  then show ?thesis by (simp add: load_if_empty_def kept_def)
qed

lemma walker_kept: "kept a (snd (gen_lineage_and_rank f a t (Fresh_list acc)))"
proof (induction f arbitrary: a t acc)
  case 0
  show ?case by (simp add: kept_def)
next
  case (Suc f)
  obtain ra a1 where la: "load_if_empty a = (ra, a1)" by (cases "load_if_empty a")
  with load_if_empty_kept [of a] have k1: "kept a a1" by simp
  show ?case
  proof (cases ra)
    case (Inl e)
    with la k1 show ?thesis by (simp only: walker_unfold) simp
  next
    case (Inr u)
    show ?thesis
    proof (cases "look_up (interp a1) (records a1) t")
      case (Inl e)
      with la k1 Inr show ?thesis by (simp only: walker_unfold) simp
    next
      case lk: (Inr res)
      show ?thesis
      proof (cases res)
        case None
        with la k1 Inr lk show ?thesis by (simp only: walker_unfold) simp
      next
        case (Some qx)
        obtain q x where qx: "qx = (q, x)" by (cases qx)
        have "kept a (snd (gen_lineage_and_rank f a1 q (Fresh_list (acc @ [x]))))"
          using k1 Suc.IH [of a1 q "acc @ [x]"] by (rule kept_trans)
        with la Inr lk Some qx show ?thesis by (simp only: walker_unfold) simp
      qed
    qed
  qed
qed

lemma get_lineage_kept: "kept a (snd (get_lineage f a t))"
proof (cases "py_int (interp a) t")
  case (Inl e)
  then show ?thesis by (simp add: get_lineage_def kept_def)
next
  case (Inr n)
  obtain r a1 where g: "gen_lineage_and_rank f a n (Fresh_list []) = (r, a1)"
    by (cases "gen_lineage_and_rank f a n (Fresh_list [])")
  with walker_kept [of a f n "[]"] have "kept a a1" by simp
  with Inr g show ?thesis by (cases r) (simp_all add: get_lineage_def)
qed

lemma get_lineage_and_rank_kept: "kept a (snd (get_lineage_and_rank f a t))"
proof (cases "py_int (interp a) t")
  case (Inl e)
  then show ?thesis by (simp add: get_lineage_and_rank_def kept_def)
next
  case (Inr n)
  with walker_kept [of a f n "[]"] show ?thesis by (simp add: get_lineage_and_rank_def)
qed

section \<open>Loading: a block that cannot be parsed\<close>

text \<open>
  When \<^verbatim>\<open>dico['id']\<close> or \<^verbatim>\<open>int\<close> raises, the \<^verbatim>\<open>except\<close> clause runs. Under Python 2 it
  prints three lines and the loop goes on, so the load never fails. Under Python 3 its
  first statement raises \<^verbatim>\<open>AttributeError\<close>, which ends \<^verbatim>\<open>load_records\<close> at that block.
\<close>

lemma load_loop_skips_py2:
  assumes "interp st = Py2" and "try_block st r = Inl e"
  shows "load_loop (r # rest) st =
         load_loop rest
           (print r
             (print (''Could not parse the following record '' @
                     ''Please fill bug report on http://github.com/biokit'')
               (print (err_args e) st)))"
  using assms by (simp add: handler_def)

lemma load_loop_never_fails_py2: "interp st = Py2 \<Longrightarrow> fst (load_loop data st) = Inr ()"
proof (induction data arbitrary: st)
  case Nil
  show ?case by simp
next
  case (Cons r data)
  show ?case
  proof (cases "try_block st r")
    case (Inr st')
    then have "kept st st'" by (rule try_block_kept)
    with Cons.prems have "interp st' = Py2" by (simp add: kept_def)
    with Inr Cons.IH show ?thesis by simp
  next
    case (Inl e)
    let ?st = "print r (print (''Could not parse the following record '' @
                     ''Please fill bug report on http://github.com/biokit'')
               (print (err_args e) st))"
    from Cons.prems have "interp ?st = Py2" by (simp add: print_def)
    then have "fst (load_loop data ?st) = Inr ()" by (rule Cons.IH)
    with load_loop_skips_py2 [OF Cons.prems Inl, of data] show ?thesis by simp
  qed
qed

lemma load_records_never_fails_py2: "interp st = Py2 \<Longrightarrow> fst (load_records st) = Inr ()"
  by (simp add: load_records_def Let_def load_loop_never_fails_py2 print_def)

lemma load_loop_aborts_py3:
  assumes "interp st = Py3" and "try_block st r = Inl e"
  shows "load_loop (r # rest) st = (Inl (AttributeError ''message''), st)"
  using assms by (simp add: handler_def)

lemma load_skips_bad_block_py2:
  "load_records (taxonomy_of Py2 bad_block_corpus []) =
     (Inr (),
      (taxonomy_of Py2 bad_block_corpus
        [(1, [(''raw'', ''ID : 1\<newline>PARENT ID : 0\<newline>''), (''id'', ''1''), (''parent'', ''0'')]),
         (2, [(''raw'', ''ID : 2\<newline>PARENT ID : 1\<newline>//''), (''id'', ''2''), (''parent'', ''1'')])])
      \<lparr>printed := [''id'',
         ''Could not parse the following record Please fill bug report on http://github.com/biokit'',
         ''SCIENTIFIC NAME : unnamed\<newline>'']\<rparr>)"
  by (simp add: loader_eval bad_block_corpus_def)

text \<open>Every record of a loaded store has an \<^verbatim>\<open>id\<close> field, whose number is its key.\<close>

lemma keyed_by_id_update:
  assumes "keyed_by_id rs" and "map_of d ''id'' = Some g" and "g \<noteq> []" and "list_all is_digit g"
  shows "keyed_by_id (dict_set rs (digits_val g) d)"
  using assms(1)
  unfolding dict_set_def
proof (induction rs)
  case Nil
  with assms(2-4) show ?case by (simp add: keyed_by_id_def)
next
  case (Cons a rs)
  then have "keyed_by_id rs" by (simp add: keyed_by_id_def)
  then have "keyed_by_id (AList.update (digits_val g) d rs)" by (rule Cons.IH)
  with Cons.prems assms(2-4) show ?case
    by (cases a) (simp add: keyed_by_id_def)
qed

lemma load_loop_keyed_by_id:
  "keyed_by_id (records st) \<Longrightarrow> keyed_by_id (records (snd (load_loop data st)))"
proof (induction data arbitrary: st)
  case Nil
  then show ?case by simp
next
  case (Cons r data)
  show ?case
  proof (cases "rx_search child_match r")
    case None
    then have tb: "try_block st r = Inl (KeyError (PStr ''id''))" by (rule try_block_no_id)
    show ?thesis
    proof (cases "handler st (KeyError (PStr ''id'')) r")
      case (Inl e)
      with tb Cons.prems show ?thesis by simp
    next
      case (Inr st')
      then have "records st' = records st"
        by (auto simp: handler_def print_def split: sum.splits)
      with Cons.prems have "keyed_by_id (records st')" by simp
      then have "keyed_by_id (records (snd (load_loop data st')))" by (rule Cons.IH)
      with tb Inr show ?thesis by simp
    qed
  next
    case (Some g)
    let ?st = "st\<lparr>records := dict_set (records st) (digits_val g) (interpret_record r)\<rparr>"
    from Some have tb: "try_block st r = Inr ?st" by (rule try_block_id)
    from child_match_digits [OF Some] Cons.prems Some
    have "keyed_by_id (records ?st)"
      by (simp add: keyed_by_id_update interpret_record_id)
    then have "keyed_by_id (records (snd (load_loop data ?st)))" by (rule Cons.IH)
    with tb show ?thesis by simp
  qed
qed

lemma load_records_keyed_by_id: "keyed_by_id (records (snd (load_records st)))"
proof -
  have "keyed_by_id (records (if verbose (st\<lparr>records := []\<rparr>)
      then print ''Loading all taxon records.'' (st\<lparr>records := []\<rparr>) else st\<lparr>records := []\<rparr>))"
    by (simp add: keyed_by_id_def print_def)
  then show ?thesis
    unfolding load_records_def Let_def by (rule load_loop_keyed_by_id)
qed

text \<open>
  C3. The claim: a block whose parse fails is skipped with a diagnostic and the load goes
  on over the remaining blocks; one bad record never aborts the load.
  Under Python 3 the load of a three-block file whose second block has no \<^verbatim>\<open>ID\<close> match
  ends at that block with \<^verbatim>\<open>AttributeError\<close>: nothing is printed, and record 2, which
  follows the bad block, is not in the store.
\<close>

theorem load_aborts_at_bad_block:
  "load_records (taxonomy_of Py3 bad_block_corpus []) =
     (Inl (AttributeError ''message''),
      taxonomy_of Py3 bad_block_corpus
        [(1, [(''raw'', ''ID : 1\<newline>PARENT ID : 0\<newline>''), (''id'', ''1''), (''parent'', ''0'')])])"
  by (simp add: loader_eval bad_block_corpus_def)

text \<open>
  C4. The claim: a block with no \<^verbatim>\<open>ID\<close> line is skipped, no record made from it is in the
  store, and every valid record of the file is.
  The pattern for \<^verbatim>\<open>ID\<close> also matches inside a \<^verbatim>\<open>PARENT ID\<close> line. On either interpreter the
  second block of the file below, which has no \<^verbatim>\<open>ID\<close> line, is stored under the number of
  its parent, 1, where it replaces the valid record 1 loaded before it.
\<close>

theorem block_without_id_line_is_stored:
  "load_records (taxonomy_of v no_id_line_corpus []) =
     (Inr (),
      taxonomy_of v no_id_line_corpus
        [(1, [(''raw'', ''PARENT ID : 1\<newline>SCIENTIFIC NAME : orphan\<newline>''),
              (''id'', ''1''), (''parent'', ''1''), (''scientific_name'', ''orphan'')]),
         (2, [(''raw'', ''ID : 2\<newline>PARENT ID : 1\<newline>//''), (''id'', ''2''), (''parent'', ''1'')])])"
  by (simp add: loader_eval no_id_line_corpus_def)

section \<open>The lineage walker\<close>

lemma walker_step_root:
  assumes "load_if_empty st = (Inr (), st1)"
    and "map_of (records st1) t = Some record"
    and "map_of record ''parent'' = Some p"
    and "int_of_str (interp st1) p = Inr 0"
  shows "gen_lineage_and_rank (Suc f) st t (Fresh_list acc) = (Inr (rev acc), st1)"
  using assms by (simp add: dict_get_Some field_Some)

lemma walker_step_up:
  assumes "load_if_empty st = (Inr (), st1)"
    and "map_of (records st1) t = Some record"
    and "map_of record ''parent'' = Some p"
    and "int_of_str (interp st1) p = Inr q" and "q \<noteq> 0"
    and "map_of record ''scientific_name'' = Some name"
    and "map_of record ''rank'' = Some rank"
  shows "gen_lineage_and_rank (Suc f) st t (Fresh_list acc) =
         gen_lineage_and_rank f st1 q (Fresh_list (acc @ [(name, rank)]))"
  using assms by (simp add: dict_get_Some field_Some)

lemma walker_missing:
  assumes ne: "records st \<noteq> []"
  shows "missing_ancestor (interp st) (records st) n t \<Longrightarrow>
         \<exists>e. gen_lineage_and_rank frames st t (Fresh_list acc) = (Inl e, st) \<and>
             (n < frames \<longrightarrow> (\<exists>k. e = KeyError k))"
proof (induction frames arbitrary: n t acc)
  case 0
  then show ?case by simp
next
  case (Suc f)
  have ld: "load_if_empty st = (Inr (), st)" using ne by (rule load_if_empty_loaded)
  show ?case
  proof (cases n)
    case 0
    with Suc.prems have "map_of (records st) t = None" by simp
    with ld show ?thesis by (simp add: dict_get_None)
  next
    case (Suc m)
    with Suc.prems obtain r p q where r: "map_of (records st) t = Some r"
      and p: "map_of r ''parent'' = Some p" and q: "int_of_str (interp st) p = Inr q"
      and q0: "q \<noteq> 0" and rest: "missing_ancestor (interp st) (records st) m q"
      by (auto split: option.splits sum.splits)
    show ?thesis
    proof (cases "map_of r ''scientific_name''")
      case None
      with ld r p q q0 show ?thesis by (simp add: dict_get_Some field_Some field_None)
    next
      case name: (Some name)
      show ?thesis
      proof (cases "map_of r ''rank''")
        case None
        with ld r p q q0 name show ?thesis by (simp add: dict_get_Some field_Some field_None)
      next
        case rank: (Some rank)
        have step: "gen_lineage_and_rank (Suc f) st t (Fresh_list acc) =
            gen_lineage_and_rank f st q (Fresh_list (acc @ [(name, rank)]))"
          using ld r p q q0 name rank by (rule walker_step_up)
        from Suc.IH [OF rest, of "acc @ [(name, rank)]"] step \<open>n = Suc m\<close>
        show ?thesis by auto
      qed
    qed
  qed
qed

text \<open>
  C8. The lineage of a taxon whose record has the sentinel 0 as its parent is the empty
  sequence. The store is the one at hand or, if that is empty, the one the lazy load makes;
  the interpreter must allow one call of the walker.
\<close>

theorem root_lineage_empty:
  assumes "load_if_empty st = (Inr (), st1)"
    and "map_of (records st1) t = Some record"
    and "map_of record ''parent'' = Some p"
    and "int_of_str (interp st1) p = Inr 0"
    and "0 < frames"
  shows "get_lineage frames st (PInt t) = (Inr [], st1)"
proof -
  from \<open>0 < frames\<close> obtain f where f: "frames = Suc f" by (cases frames) auto
  from assms(1-4) have "gen_lineage_and_rank (Suc f) st t (Fresh_list []) = (Inr [], st1)"
    by (simp add: dict_get_Some field_Some)
  with f show ?thesis by (simp add: get_lineage_def)
qed

text \<open>The theorem at the root of the example chain, with the store loaded by the call.\<close>

theorem root_lineage_empty_witness:
  "load_if_empty (taxonomy_of Py3 chain_corpus []) = (Inr (), chain_taxonomy) \<and>
   map_of (records chain_taxonomy) 1 = Some root_record \<and>
   map_of root_record ''parent'' = Some ''0'' \<and>
   int_of_str (interp chain_taxonomy) ''0'' = Inr 0 \<and> (0::nat) < 1 \<and>
   get_lineage 1 (taxonomy_of Py3 chain_corpus []) (PInt 1) = (Inr [], chain_taxonomy)"
proof -
  have h1: "load_if_empty (taxonomy_of Py3 chain_corpus []) = (Inr (), chain_taxonomy)"
    by (simp add: lazy_load_chain chain_taxonomy_def)
  have h2: "map_of (records chain_taxonomy) 1 = Some root_record"
    by (simp add: chain_taxonomy_def taxonomy_of_def chain_store_def)
  have h3: "map_of root_record ''parent'' = Some ''0''"
    by (simp add: root_record_def)
  have h4: "int_of_str (interp chain_taxonomy) ''0'' = Inr 0"
    by (simp add: query_eval chain_taxonomy_def)
  have h5: "(0::nat) < 1" by simp
  from root_lineage_empty [OF h1 h2 h3 h4 h5] h1 h2 h3 h4 h5 show ?thesis by simp
qed

text \<open>
  C5, as amended. For a store with the chain root (1, parent 0), child (2, parent 1) and
  grandchild (3, parent 2), whose records 2 and 3 have a name and a rank, the lineage of 3
  is the name of 2 followed by the name of 3: the root's name is left out and the name of
  the queried taxon is the last element. Three calls of the walker must be allowed.
\<close>

theorem chain_lineage:
  assumes ld: "load_if_empty st = (Inr (), st1)"
    and r3: "map_of (records st1) 3 = Some r3" "map_of r3 ''parent'' = Some p3"
            "int_of_str (interp st1) p3 = Inr 2"
            "map_of r3 ''scientific_name'' = Some n3" "map_of r3 ''rank'' = Some k3"
    and r2: "map_of (records st1) 2 = Some r2" "map_of r2 ''parent'' = Some p2"
            "int_of_str (interp st1) p2 = Inr 1"
            "map_of r2 ''scientific_name'' = Some n2" "map_of r2 ''rank'' = Some k2"
    and r1: "map_of (records st1) 1 = Some r1" "map_of r1 ''parent'' = Some p1"
            "int_of_str (interp st1) p1 = Inr 0"
    and fr: "3 \<le> frames"
  shows "get_lineage frames st (PInt 3) = (Inr [n2, n3], st1)"
proof -
  from fr obtain f where f: "frames = Suc (Suc (Suc f))"
    by (metis Suc_le_D numeral_3_eq_3 Suc_le_mono)
  from r3(1) have ne: "records st1 \<noteq> []" by auto
  have ld1: "load_if_empty st1 = (Inr (), st1)" using ld ne by (rule load_if_empty_again)
  have "gen_lineage_and_rank (Suc (Suc (Suc f))) st 3 (Fresh_list []) =
        gen_lineage_and_rank (Suc (Suc f)) st1 2 (Fresh_list ([] @ [(n3, k3)]))"
    using ld r3 by (intro walker_step_up) simp_all
  also have "\<dots> = gen_lineage_and_rank (Suc f) st1 1 (Fresh_list (([] @ [(n3, k3)]) @ [(n2, k2)]))"
    using ld1 r2 by (intro walker_step_up) simp_all
  also have "\<dots> = (Inr (rev (([] @ [(n3, k3)]) @ [(n2, k2)])), st1)"
    using ld1 r1 by (intro walker_step_root) simp_all
  finally show ?thesis using f by (simp add: get_lineage_def)
qed

text \<open>
  C5 as stated says the lineage of 3 is the names of 1 and 2. On the example chain it is
  the names of 2 and 3.
\<close>

theorem lineage_of_grandchild_counterexample:
  "fst (get_lineage 3 chain_taxonomy (PInt 3)) = Inr [''Bacteria'', ''Aquificae''] \<and>
   fst (get_lineage 3 chain_taxonomy (PInt 3)) \<noteq> Inr [''root'', ''Bacteria'']"
  by (simp add: query_eval chain_eval eval_nat_numeral)

text \<open>The amended statement at the example chain.\<close>

theorem chain_lineage_witness:
  "load_if_empty chain_taxonomy = (Inr (), chain_taxonomy) \<and>
   map_of (records chain_taxonomy) 3 = Some aquificae_record \<and>
   map_of (records chain_taxonomy) 2 = Some bacteria_record \<and>
   map_of (records chain_taxonomy) 1 = Some root_record \<and>
   get_lineage 3 chain_taxonomy (PInt 3) = (Inr [''Bacteria'', ''Aquificae''], chain_taxonomy)"
proof -
  have ld: "load_if_empty chain_taxonomy = (Inr (), chain_taxonomy)"
    by (simp add: load_if_empty_def chain_taxonomy_def taxonomy_of_def chain_store_def)
  have m: "map_of (records chain_taxonomy) 3 = Some aquificae_record"
    "map_of (records chain_taxonomy) 2 = Some bacteria_record"
    "map_of (records chain_taxonomy) 1 = Some root_record"
    by (simp_all add: chain_taxonomy_def taxonomy_of_def chain_store_def)
  have f3: "map_of aquificae_record ''parent'' = Some ''2''"
    "map_of aquificae_record ''scientific_name'' = Some ''Aquificae''"
    "map_of aquificae_record ''rank'' = Some ''phylum''"
    by (simp_all add: aquificae_record_def)
  have f2: "map_of bacteria_record ''parent'' = Some ''1''"
    "map_of bacteria_record ''scientific_name'' = Some ''Bacteria''"
    "map_of bacteria_record ''rank'' = Some ''superkingdom''"
    by (simp_all add: bacteria_record_def)
  have f1: "map_of root_record ''parent'' = Some ''0''"
    by (simp add: root_record_def)
  have i: "int_of_str (interp chain_taxonomy) ''2'' = Inr 2"
    "int_of_str (interp chain_taxonomy) ''1'' = Inr 1"
    "int_of_str (interp chain_taxonomy) ''0'' = Inr 0"
    by (simp_all add: query_eval chain_taxonomy_def)
  have fr: "(3::nat) \<le> 3" by simp
  from chain_lineage [OF ld m(1) f3(1) i(1) f3(2) f3(3) m(2) f2(1) i(2) f2(2) f2(3) m(3) f1 i(3) fr]
    ld m show ?thesis by simp
qed

text \<open>
  C6. If the queried identifier is not a key of the store, or the chain of its ancestors
  reaches an identifier that is not, \<^verbatim>\<open>get_lineage\<close> returns no sequence: it fails, and
  with \<^verbatim>\<open>KeyError\<close> whenever the interpreter allows as many calls of the walker as the chain
  is long (otherwise the recursion limit ends the walk first).
\<close>

theorem missing_taxon_lookup_error:
  assumes ld: "load_if_empty st = (Inr (), st1)"
    and miss: "missing_ancestor (interp st1) (records st1) n t"
  shows "\<exists>e. fst (get_lineage frames st (PInt t)) = Inl e \<and>
             (n < frames \<longrightarrow> (\<exists>k. e = KeyError k))"
proof (cases frames)
  case 0
  then show ?thesis by (simp add: get_lineage_def)
next
  case (Suc f)
  show ?thesis
  proof (cases "records st1 = []")
    case True
    with miss have "map_of (records st1) t = None" by simp
    with ld Suc show ?thesis by (simp add: get_lineage_def dict_get_None)
  next
    case False
    then have ld1: "load_if_empty st1 = (Inr (), st1)" by (rule load_if_empty_loaded)
    have "gen_lineage_and_rank (Suc f) st t (Fresh_list []) =
          gen_lineage_and_rank (Suc f) st1 t (Fresh_list [])"
      using ld ld1 by simp
    moreover from walker_missing [OF False miss, of "Suc f" "[]"]
    obtain e where "gen_lineage_and_rank (Suc f) st1 t (Fresh_list []) = (Inl e, st1)"
      and "n < Suc f \<longrightarrow> (\<exists>k. e = KeyError k)" by blast
    ultimately show ?thesis using Suc by (auto simp: get_lineage_def)
  qed
qed

text \<open>The theorem at a store that holds record 3 and not its parent 2.\<close>

theorem missing_taxon_lookup_error_witness:
  "load_if_empty broken_taxonomy = (Inr (), broken_taxonomy) \<and>
   missing_ancestor (interp broken_taxonomy) (records broken_taxonomy) 1 3 \<and>
   (\<exists>e. fst (get_lineage 5 broken_taxonomy (PInt 3)) = Inl e \<and>
        ((1::nat) < 5 \<longrightarrow> (\<exists>k. e = KeyError k))) \<and>
   fst (get_lineage 5 broken_taxonomy (PInt 3)) = Inl (KeyError (PInt 2))"
proof -
  have ld: "load_if_empty broken_taxonomy = (Inr (), broken_taxonomy)"
    by (simp add: load_if_empty_def broken_taxonomy_def taxonomy_of_def)
  have ms: "missing_ancestor (interp broken_taxonomy) (records broken_taxonomy) 1 3"
    by (simp add: broken_taxonomy_def aquificae_record_def query_eval)
  have ev: "fst (get_lineage 5 broken_taxonomy (PInt 3)) = Inl (KeyError (PInt 2))"
    by (simp add: broken_taxonomy_def aquificae_record_def query_eval eval_nat_numeral)
  from missing_taxon_lookup_error [OF ld ms, of 5] ld ms ev show ?thesis by blast
qed

text \<open>
  C7. \<^verbatim>\<open>get_lineage\<close> and \<^verbatim>\<open>get_lineage_and_rank\<close> pass a new empty list to the walker:
  neither of them changes the default list of the walker, the result of neither depends on
  what that list holds, and a call of \<^verbatim>\<open>get_lineage\<close> that leaves the store as it was is
  followed by calls that return what they would have returned before it; so the same
  query twice in a row gives the same answer.
\<close>

theorem fresh_accumulator_each_call:
  "default_lineage_rank (snd (get_lineage frames st t)) = default_lineage_rank st \<and>
   default_lineage_rank (snd (get_lineage_and_rank frames st t)) = default_lineage_rank st \<and>
   fst (get_lineage frames (st\<lparr>default_lineage_rank := xs\<rparr>) t) = fst (get_lineage frames st t) \<and>
   fst (get_lineage_and_rank frames (st\<lparr>default_lineage_rank := xs\<rparr>) t) =
     fst (get_lineage_and_rank frames st t) \<and>
   (records (snd (get_lineage frames st t)) = records st \<longrightarrow>
      fst (get_lineage frames (snd (get_lineage frames st t)) t') = fst (get_lineage frames st t'))"
proof (intro conjI impI)
  show "default_lineage_rank (snd (get_lineage frames st t)) = default_lineage_rank st"
    using get_lineage_kept [of st frames t] by (simp add: kept_def)
  show "default_lineage_rank (snd (get_lineage_and_rank frames st t)) = default_lineage_rank st"
    using get_lineage_and_rank_kept [of st frames t] by (simp add: kept_def)
  have s: "same_inputs (st\<lparr>default_lineage_rank := xs\<rparr>) st" by (simp add: same_inputs_def)
  show "fst (get_lineage frames (st\<lparr>default_lineage_rank := xs\<rparr>) t) = fst (get_lineage frames st t)"
    using s by (rule get_lineage_same)
  show "fst (get_lineage_and_rank frames (st\<lparr>default_lineage_rank := xs\<rparr>) t) =
     fst (get_lineage_and_rank frames st t)"
    using s by (rule get_lineage_and_rank_same)
next
  assume "records (snd (get_lineage frames st t)) = records st"
  with get_lineage_kept [of st frames t]
  have "same_inputs (snd (get_lineage frames st t)) st"
    by (simp add: same_inputs_def kept_def)
  then show "fst (get_lineage frames (snd (get_lineage frames st t)) t') = fst (get_lineage frames st t')"
    by (rule get_lineage_same)
qed

text \<open>The theorem at the example chain, queried twice for taxon 3.\<close>

theorem fresh_accumulator_each_call_witness:
  "records (snd (get_lineage 3 chain_taxonomy (PInt 3))) = records chain_taxonomy \<and>
   fst (get_lineage 3 (snd (get_lineage 3 chain_taxonomy (PInt 3))) (PInt 3)) =
     fst (get_lineage 3 chain_taxonomy (PInt 3)) \<and>
   fst (get_lineage 3 chain_taxonomy (PInt 3)) = Inr [''Bacteria'', ''Aquificae'']"
proof -
  have ev: "get_lineage 3 chain_taxonomy (PInt 3) = (Inr [''Bacteria'', ''Aquificae''], chain_taxonomy)"
    by (simp add: query_eval chain_eval eval_nat_numeral)
  then have h: "records (snd (get_lineage 3 chain_taxonomy (PInt 3))) = records chain_taxonomy"
    by simp
  from fresh_accumulator_each_call
    [where frames = 3 and st = chain_taxonomy and t = "PInt 3" and t' = "PInt 3"] h
  have "fst (get_lineage 3 (snd (get_lineage 3 chain_taxonomy (PInt 3))) (PInt 3)) =
     fst (get_lineage 3 chain_taxonomy (PInt 3))" by blast
  with h ev show ?thesis by simp
qed

text \<open>
  For contrast, the walker called without its second argument works on its default list:
  the second of two such calls returns the entries of the first one as well.
\<close>

lemma default_accumulator_leaks:
  "gen_lineage_and_rank 3 chain_taxonomy 3 Default_list =
     (Inr [(''Bacteria'', ''superkingdom''), (''Aquificae'', ''phylum'')],
      chain_taxonomy\<lparr>default_lineage_rank :=
        [(''Bacteria'', ''superkingdom''), (''Aquificae'', ''phylum'')]\<rparr>) \<and>
   fst (gen_lineage_and_rank 3
          (snd (gen_lineage_and_rank 3 chain_taxonomy 3 Default_list)) 3 Default_list) =
     Inr [(''Bacteria'', ''superkingdom''), (''Aquificae'', ''phylum''),
          (''Aquificae'', ''phylum''), (''Bacteria'', ''superkingdom'')]"
  by (simp add: query_eval chain_eval eval_nat_numeral)

section \<open>Children\<close>

lemma scan_children_parentless:
  assumes r: "map_of rs k = Some r" and np: "map_of r ''parent'' = None"
  shows "k \<in> set ks \<Longrightarrow> set ks \<subseteq> fst ` set rs \<Longrightarrow>
         scan_children rs t ks = Inl (KeyError (PStr ''parent''))"
proof (induction ks)
  case Nil
  then show ?case by simp
next
  case (Cons a ks)
  from Cons.prems(2) have "a \<in> fst ` set rs" by simp
  then obtain ra where ra: "map_of rs a = Some ra"
    by (metis map_of_eq_None_iff not_Some_eq)
  show ?case
  proof (cases "map_of ra ''parent''")
    case None
    with ra show ?thesis by (simp add: dict_get_Some field_None)
  next
    case (Some p)
    with ra r np have "a \<noteq> k" by auto
    with Cons.prems have "k \<in> set ks" and "set ks \<subseteq> fst ` set rs" by auto
    then have "scan_children rs t ks = Inl (KeyError (PStr ''parent''))" by (rule Cons.IH)
    with ra Some show ?thesis by (simp add: dict_get_Some field_Some)
  qed
qed

lemma scan_children_all:
  assumes "\<forall>k\<in>set ks. \<exists>r p. map_of rs k = Some r \<and> map_of r ''parent'' = Some p"
  shows "scan_children rs t ks =
         Inr (filter (\<lambda>r. map_of r ''parent'' = Some t) (map (\<lambda>k. the (map_of rs k)) ks))"
  using assms
proof (induction ks)
  case Nil
  then show ?case by simp
next
  case (Cons a ks)
  then obtain r p where "map_of rs a = Some r" and "map_of r ''parent'' = Some p" by auto
  with Cons show ?case by (simp add: dict_get_Some field_Some)
qed

lemma child_ids_all:
  assumes "\<forall>c\<in>set cs. \<exists>i. map_of c ''id'' = Some i"
  shows "child_ids cs = Inr (map (\<lambda>c. the (map_of c ''id'')) cs)"
  using assms
proof (induction cs)
  case Nil
  then show ?case by simp
next
  case (Cons c cs)
  then obtain i where "map_of c ''id'' = Some i" by auto
  with Cons show ?case by (simp add: field_Some)
qed

text \<open>
  C10. If some record of the store has no \<^verbatim>\<open>parent\<close> field, every call of
  \<^verbatim>\<open>get_children\<close> fails with \<^verbatim>\<open>KeyError('parent')\<close>, whatever taxon is asked for.
\<close>

theorem get_children_parentless_fails:
  assumes "map_of (records st) k = Some r" and "map_of r ''parent'' = None"
  shows "get_children st taxon = (Inl (KeyError (PStr ''parent'')), st)"
proof -
  from assms(1) have ne: "records st \<noteq> []" by auto
  from assms(1) have "k \<in> set (dict_keys (records st))"
    using map_of_SomeD [OF assms(1)] by (force simp: dict_keys_def)
  then have "scan_children (records st) (py_str taxon) (dict_keys (records st)) =
      Inl (KeyError (PStr ''parent''))"
    using scan_children_parentless [OF assms] by (simp add: dict_keys_def)
  with ne show ?thesis by (simp add: get_children_def load_if_empty_loaded)
qed

text \<open>The theorem at a store whose record 9 has no parent line, asked for the children of 3.\<close>

theorem get_children_parentless_fails_witness:
  "map_of (records (taxonomy_of Py2 parentless_corpus parentless_store)) 9 = Some parentless_record \<and>
   map_of parentless_record ''parent'' = None \<and>
   get_children (taxonomy_of Py2 parentless_corpus parentless_store) (PStr ''3'') =
     (Inl (KeyError (PStr ''parent'')), taxonomy_of Py2 parentless_corpus parentless_store)"
proof -
  have h1: "map_of (records (taxonomy_of Py2 parentless_corpus parentless_store)) 9 =
      Some parentless_record"
    by (simp add: taxonomy_of_def parentless_store_def siblings_store_def)
  have h2: "map_of parentless_record ''parent'' = None"
    by (simp add: parentless_record_def)
  from get_children_parentless_fails [OF h1 h2, of "PStr ''3''"] h1 h2 show ?thesis by simp
qed

text \<open>
  C9, as amended. When every record of the store has a \<^verbatim>\<open>parent\<close> and an \<^verbatim>\<open>id\<close> field,
  \<^verbatim>\<open>get_children(taxon)\<close> returns the \<^verbatim>\<open>id\<close> texts of exactly the records whose \<^verbatim>\<open>parent\<close>
  text is \<^verbatim>\<open>str(taxon)\<close>. The store is the one at hand or, if that is empty, the one the
  lazy load makes.
\<close>

theorem get_children_exact:
  assumes ld: "load_if_empty st = (Inr (), st1)"
    and full: "\<forall>k r. map_of (records st1) k = Some r \<longrightarrow>
                 map_of r ''parent'' \<noteq> None \<and> map_of r ''id'' \<noteq> None"
  shows "\<exists>ids. get_children st taxon = (Inr ids, st1) \<and>
           set ids = {i. \<exists>k r. map_of (records st1) k = Some r \<and>
                          map_of r ''parent'' = Some (py_str taxon) \<and> map_of r ''id'' = Some i}"
proof -
  let ?rs = "records st1" and ?t = "py_str taxon"
  let ?kept = "filter (\<lambda>r. map_of r ''parent'' = Some ?t)
                 (map (\<lambda>k. the (map_of ?rs k)) (dict_keys ?rs))"
  have keys: "\<forall>k\<in>set (dict_keys ?rs). \<exists>r. map_of ?rs k = Some r"
    by (auto simp: dict_keys_def) (metis map_of_eq_None_iff not_Some_eq image_eqI fst_conv)
  with full have "\<forall>k\<in>set (dict_keys ?rs). \<exists>r p. map_of ?rs k = Some r \<and> map_of r ''parent'' = Some p"
    by fastforce
  then have scan: "scan_children ?rs ?t (dict_keys ?rs) = Inr ?kept"
    by (rule scan_children_all)
  have "\<forall>c\<in>set ?kept. \<exists>i. map_of c ''id'' = Some i"
    using keys full by fastforce
  then have ids: "child_ids ?kept = Inr (map (\<lambda>c. the (map_of c ''id'')) ?kept)"
    by (rule child_ids_all)
  have res: "get_children st taxon = (Inr (map (\<lambda>c. the (map_of c ''id'')) ?kept), st1)"
    using ld scan ids by (simp add: get_children_def)
  have "set (map (\<lambda>c. the (map_of c ''id'')) ?kept) =
        {i. \<exists>k r. map_of ?rs k = Some r \<and> map_of r ''parent'' = Some ?t \<and> map_of r ''id'' = Some i}"
    (is "?L = ?R")
  proof (intro set_eqI iffI)
    fix i assume "i \<in> ?L"
    then obtain k where k: "k \<in> set (dict_keys ?rs)"
      and p: "map_of (the (map_of ?rs k)) ''parent'' = Some ?t"
      and i: "i = the (map_of (the (map_of ?rs k)) ''id'')" by auto
    from keys k obtain r where r: "map_of ?rs k = Some r" by blast
    with full obtain j where "map_of r ''id'' = Some j" by blast
    with r p i show "i \<in> ?R" by auto
  next
    fix i assume "i \<in> ?R"
    then obtain k r where r: "map_of ?rs k = Some r"
      and p: "map_of r ''parent'' = Some ?t" and i: "map_of r ''id'' = Some i" by blast
    from r have "k \<in> set (dict_keys ?rs)"
      using map_of_SomeD [OF r] by (force simp: dict_keys_def)
    with r p i show "i \<in> ?L" by force
  qed
  with res show ?thesis by blast
qed

text \<open>
  C9 as stated speaks of every store. In a store where 2 and 3 are the children of 1 and
  record 9 has no parent line, the call for the children of 1 fails.
\<close>

theorem get_children_counterexample:
  "fst (get_children (taxonomy_of Py3 parentless_corpus parentless_store) (PInt 1)) =
     Inl (KeyError (PStr ''parent''))"
  by (simp add: query_eval parentless_store_def siblings_store_def parentless_record_def)

text \<open>The amended statement at the store where 2 and 3 are the children of 1.\<close>

theorem get_children_exact_witness:
  "load_if_empty (taxonomy_of Py3 [] siblings_store) = (Inr (), taxonomy_of Py3 [] siblings_store) \<and>
   (\<exists>ids. get_children (taxonomy_of Py3 [] siblings_store) (PInt 1) =
            (Inr ids, taxonomy_of Py3 [] siblings_store) \<and>
          set ids = {i. \<exists>k r. map_of (records (taxonomy_of Py3 [] siblings_store)) k = Some r \<and>
                         map_of r ''parent'' = Some (py_str (PInt 1)) \<and> map_of r ''id'' = Some i}) \<and>
   get_children (taxonomy_of Py3 [] siblings_store) (PInt 1) =
     (Inr [''2'', ''3''], taxonomy_of Py3 [] siblings_store)"
proof -
  let ?S = "taxonomy_of Py3 [] siblings_store"
  have ld: "load_if_empty ?S = (Inr (), ?S)"
    by (simp add: load_if_empty_def taxonomy_of_def siblings_store_def)
  have full: "\<forall>k r. map_of (records ?S) k = Some r \<longrightarrow>
      map_of r ''parent'' \<noteq> None \<and> map_of r ''id'' \<noteq> None"
    by (auto simp: taxonomy_of_def siblings_store_def split: if_splits)
  have ev: "get_children ?S (PInt 1) = (Inr [''2'', ''3''], ?S)"
    by (simp add: query_eval siblings_store_def)
  from get_children_exact [OF ld full, of "PInt 1"] ld ev show ?thesis by blast
qed

section \<open>The family tree\<close>

text \<open>
  C1. The claim: the expansion stops once the number of edges exceeds the limit, so the
  result is longer than the limit by at most one round of edges.
  The loop has no exit at its limit test. On the example chain with limit 0 the first round
  collects one edge, which exceeds the limit; the loop runs two more rounds, returns both
  edges of the chain and prints the diagnostic after each of the three rounds.
\<close>

theorem family_tree_ignores_limit:
  "get_family_tree_uniprot chain_taxonomy (PInt 1) 0 =
     Some (Inr [(PInt 1, PStr ''2''), (PStr ''2'', PStr ''3'')],
           chain_taxonomy\<lparr>printed := [''Reached limit number of nodes'', ''Reached limit number of nodes'',
                                       ''Reached limit number of nodes'']\<rparr>)"
  by (simp add: get_family_tree_uniprot_def family_tree_while.simps query_eval chain_eval)

text \<open>
  In general the limit has no effect on what is returned, nor on whether the loop ends:
  two runs that differ in the limit alone return the same edges or the same error, or
  neither returns.
\<close>

lemma get_children_same:
  "same_inputs a b \<Longrightarrow> rel_prod (=) same_inputs (get_children a t) (get_children b t)"
proof -
  assume s: "same_inputs a b"
  obtain ra a1 where la: "load_if_empty a = (ra, a1)" by (cases "load_if_empty a")
  obtain rb b1 where lb: "load_if_empty b = (rb, b1)" by (cases "load_if_empty b")
  from load_if_empty_same [OF s] la lb have rr: "rb = ra" and s1: "same_inputs a1 b1"
    by simp_all
  from s1 have eqs: "records b1 = records a1" by (simp add: same_inputs_def)
  show ?thesis
    using la lb rr s1 eqs by (simp add: get_children_def split: sum.splits)
qed

lemma expand_round_same:
  "same_inputs a b \<Longrightarrow>
   rel_prod (=) same_inputs (expand_round a ps nc tree) (expand_round b ps nc tree)"
proof (induction ps arbitrary: a b nc tree)
  case Nil
  then show ?case by simp
next
  case (Cons p ps)
  obtain ra a1 where ga: "get_children a p = (ra, a1)" by (cases "get_children a p")
  obtain rb b1 where gb: "get_children b p = (rb, b1)" by (cases "get_children b p")
  from get_children_same [OF Cons.prems, of p] ga gb have rr: "rb = ra" and s1: "same_inputs a1 b1"
    by simp_all
  show ?case
  proof (cases ra)
    case (Inl e)
    with ga gb rr s1 show ?thesis by simp
  next
    case (Inr ids)
    with ga gb rr Cons.IH [OF s1] show ?thesis by simp
  qed
qed

lemma same_inputs_print:
  "same_inputs a b \<Longrightarrow>
   same_inputs (if c then print x a else a) (if d then print y b else b)"
  by (simp add: same_inputs_def print_def)

lemma same_inputs_refl: "same_inputs a a"
  by (simp add: same_inputs_def)

lemma family_tree_while_same:
  assumes ret: "family_tree_while a l tree ch = Some y"
  shows "\<forall>b l'. same_inputs a b \<longrightarrow>
           (\<exists>b1. family_tree_while b l' tree ch = Some (fst y, b1) \<and> same_inputs (snd y) b1)"
proof (rule family_tree_while.raw_induct
    [where P = "\<lambda>a l tree ch y. \<forall>b l'. same_inputs a b \<longrightarrow>
           (\<exists>b1. family_tree_while b l' tree ch = Some (fst y, b1) \<and> same_inputs (snd y) b1)",
     OF _ ret])
  fix f a l tree ch y
  assume IH: "\<And>a l tree ch y. f a l tree ch = Some y \<Longrightarrow>
      \<forall>b l'. same_inputs a b \<longrightarrow>
           (\<exists>b1. family_tree_while b l' tree ch = Some (fst y, b1) \<and> same_inputs (snd y) b1)"
    and eq: "(if length ch \<noteq> 0 then
          (case expand_round a ch [] tree of
             (Inl e, st1) \<Rightarrow> Some (Inl e, st1)
           | (Inr (new_children, tree1), st1) \<Rightarrow>
               f (if int (length tree1) > l
                  then print ''Reached limit number of nodes'' st1 else st1)
                 l tree1 new_children)
        else Some (Inr tree, a)) = Some y"
  show "\<forall>b l'. same_inputs a b \<longrightarrow>
           (\<exists>b1. family_tree_while b l' tree ch = Some (fst y, b1) \<and> same_inputs (snd y) b1)"
  proof (intro allI impI)
    fix b l'
    assume s: "same_inputs a b"
    show "\<exists>b1. family_tree_while b l' tree ch = Some (fst y, b1) \<and> same_inputs (snd y) b1"
    proof (cases "ch = []")
      case True
      with eq have "y = (Inr tree, a)" by simp
      with True s show ?thesis by (simp add: family_tree_while.simps [of b])
    next
      case False
      obtain ra a1 where ea: "expand_round a ch [] tree = (ra, a1)"
        by (cases "expand_round a ch [] tree")
      obtain rb b1 where eb: "expand_round b ch [] tree = (rb, b1)"
        by (cases "expand_round b ch [] tree")
      from expand_round_same [OF s, of ch "[]" tree] ea eb
      have rr: "rb = ra" and s1: "same_inputs a1 b1" by simp_all
      show ?thesis
      proof (cases ra)
        case (Inl e)
        with eq False ea have "y = (Inl e, a1)" by simp
        with False eb rr Inl s1 show ?thesis by (simp add: family_tree_while.simps [of b])
      next
        case (Inr res)
        obtain nc tree1 where res: "res = (nc, tree1)" by (cases res)
        let ?a = "if int (length tree1) > l then print ''Reached limit number of nodes'' a1 else a1"
        let ?b = "if int (length tree1) > l' then print ''Reached limit number of nodes'' b1 else b1"
        from eq False ea Inr res have "f ?a l tree1 nc = Some y" by simp
        from IH [OF this] same_inputs_print [OF s1]
        obtain b2 where "family_tree_while ?b l' tree1 nc = Some (fst y, b2)"
          and "same_inputs (snd y) b2" by blast
        with False eb rr Inr res show ?thesis by (simp add: family_tree_while.simps [of b])
      qed
    qed
  qed
qed

lemma limit_has_no_effect:
  "map_option fst (get_family_tree_uniprot st taxon limits) =
   map_option fst (get_family_tree_uniprot st taxon limits')"
proof -
  have one: "\<And>l l'. family_tree_while st l [] [taxon] = None \<or>
      map_option fst (family_tree_while st l [] [taxon]) =
      map_option fst (family_tree_while st l' [] [taxon])"
  proof -
    fix l l'
    show "family_tree_while st l [] [taxon] = None \<or>
      map_option fst (family_tree_while st l [] [taxon]) =
      map_option fst (family_tree_while st l' [] [taxon])"
    proof (cases "family_tree_while st l [] [taxon]")
      case None
      then show ?thesis by simp
    next
      case (Some y)
      from family_tree_while_same [OF Some] same_inputs_refl [of st]
      obtain b1 where "family_tree_while st l' [] [taxon] = Some (fst y, b1)" by blast
      with Some show ?thesis by simp
    qed
  qed
  show ?thesis
  proof (cases "family_tree_while st limits [] [taxon]")
    case None
    with one [of limits' limits] show ?thesis
      by (auto simp: get_family_tree_uniprot_def)
  next
    case (Some y)
    with one [of limits limits'] show ?thesis
      by (auto simp: get_family_tree_uniprot_def)
  qed
qed

text \<open>
  In a store where a record is its own parent the loop never ends, whatever the limit.
\<close>

lemma cyclic_round:
  assumes "records st = cyclic_store" and "c = PInt 1 \<or> c = PStr ''1''"
  shows "expand_round st [c] [] tree = (Inr ([PStr ''1''], tree @ [(c, PStr ''1'')]), st)"
  using assms
  by (auto simp: cyclic_store_def get_children_def load_if_empty_def field_def dict_get_def
      dict_keys_def nat_digits.simps digit_char_def)

lemma family_tree_never_returns_on_cycle:
  "family_tree_while (taxonomy_of v text cyclic_store) limits [] [PInt 1] = None"
proof (rule ccontr)
  assume "family_tree_while (taxonomy_of v text cyclic_store) limits [] [PInt 1] \<noteq> None"
  then obtain y where ret:
    "family_tree_while (taxonomy_of v text cyclic_store) limits [] [PInt 1] = Some y" by auto
  have "\<not> (records (taxonomy_of v text cyclic_store) = cyclic_store \<and>
           ([PInt 1] = [PInt 1] \<or> [PInt 1] = [PStr ''1'']))"
  proof (rule family_tree_while.raw_induct
      [where P = "\<lambda>st limits tree children y.
         \<not> (records st = cyclic_store \<and> (children = [PInt 1] \<or> children = [PStr ''1'']))",
       OF _ ret])
    fix f st limits tree children y
    assume IH: "\<And>st limits tree children y. f st limits tree children = Some y \<Longrightarrow>
         \<not> (records st = cyclic_store \<and> (children = [PInt 1] \<or> children = [PStr ''1'']))"
      and eq: "(if length children \<noteq> 0 then
          (case expand_round st children [] tree of
             (Inl e, st1) \<Rightarrow> Some (Inl e, st1)
           | (Inr (new_children, tree1), st1) \<Rightarrow>
               f (if int (length tree1) > limits
                  then print ''Reached limit number of nodes'' st1 else st1)
                 limits tree1 new_children)
        else Some (Inr tree, st)) = Some y"
    show "\<not> (records st = cyclic_store \<and> (children = [PInt 1] \<or> children = [PStr ''1'']))"
    proof
      assume c: "records st = cyclic_store \<and> (children = [PInt 1] \<or> children = [PStr ''1''])"
      then obtain c0 where ch: "children = [c0]" and c0: "c0 = PInt 1 \<or> c0 = PStr ''1''" by auto
      from c have rs: "records st = cyclic_store" by simp
      let ?st = "if int (length (tree @ [(c0, PStr ''1'')])) > limits
                 then print ''Reached limit number of nodes'' st else st"
      from eq ch cyclic_round [OF rs c0, of tree]
      have "f ?st limits (tree @ [(c0, PStr ''1'')]) [PStr ''1''] = Some y" by simp
      from IH [OF this] have "records ?st \<noteq> cyclic_store" by simp
      moreover have "records ?st = records st" by (simp add: print_def)
      ultimately show False using rs by simp
    qed
  qed
  then show False by (simp add: taxonomy_of_def)
qed

text \<open>
  C2. The claim: \<^verbatim>\<open>get_family_tree(root, limit)\<close> returns the edges found by the
  breadth-first expansion. The function reads the unbound name \<^verbatim>\<open>method\<close> before it does
  anything else: every call raises \<^verbatim>\<open>NameError\<close>, for every store, root and limit.
\<close>

theorem get_family_tree_name_error:
  "get_family_tree None st taxon limits = Some (Inl (NameError ''method''), st)"
  by (simp add: get_family_tree_def)

text \<open>Were \<^verbatim>\<open>method\<close> bound to \<^verbatim>\<open>'uniprot'\<close>, the tree would be built and dropped.\<close>

lemma get_family_tree_returns_no_tree:
  "get_family_tree (Some (PStr ''uniprot'')) chain_taxonomy (PInt 1) 0 =
     Some (Inr (), chain_taxonomy\<lparr>printed := [''Reached limit number of nodes'', ''Reached limit number of nodes'',
                                               ''Reached limit number of nodes'']\<rparr>)"
  by (simp add: get_family_tree_def get_family_tree_uniprot_def family_tree_while.simps query_eval chain_eval)

end
